theory Spec2Isabelle
  imports Main "HOL-Library.Word" "HOL-Library.Sublist"
begin

section \<open>The MultiSelect component of \<open>src/components/UI/select.tsx\<close>\<close>

text \<open>
  The component is a React function component: its state lives in four \<open>useState\<close>
  cells, its handlers are closures over the values of the current render, and a handler
  changes the state only by calling the setters and notifies the caller only by calling
  \<open>onChange\<close>. The embedding keeps that shape: a handler is a function from the props
  and the state of the render to the list of calls it makes, in the order of the source,
  and \<open>commit\<close> applies the queued setter calls to the state once the event is over.
  What has no part in the state is left out: \<open>preventDefault\<close>, the effect that scrolls
  the highlighted element into view, and the classes and styles of the panel that depend
  on \<open>portal\<close> and \<open>zIndex\<close>.
\<close>

subsection \<open>Data\<close>

text \<open>
  A JavaScript string is a sequence of UTF-16 code units; \<open>length\<close>, \<open>indexOf\<close> and
  \<open>slice\<close> count code units.
\<close>

type_synonym jsstring = "16 word list"

definition utf16 :: "string \<Rightarrow> jsstring" where
  "utf16 s = map (\<lambda>c. of_nat (of_char c)) s"

text \<open>
  Modelled from the spec: the type \<open>Option\<close> of \<open>types/Option\<close>, which the component
  imports and which is not among the sources. The spec gives it a \<open>value\<close> (an opaque
  identifier, numbers in the spec's scenarios) and a \<open>label\<close> (the display string).
  Identifiers are integer-valued numbers or strings; \<open>===\<close> on them is equality of the
  datatype (a number is never \<open>===\<close> a string).
\<close>

datatype ident = NumV int | StrV jsstring

record Option =
  value_of :: ident
  label :: jsstring

text \<open>
  The props of \<open>MultiSelectProps\<close>, with the defaults of the destructuring pattern
  written by the caller. \<open>onChange\<close> is the one prop that is not a field: the calls
  made to it are part of what a handler returns. \<open>renderOption\<close> is an optional
  function to the caller's own nodes, of type \<open>'n\<close>.
\<close>

record 'n props =
  options :: "Option list"
  isMultiple :: bool
  portal :: bool
  renderOption :: "(Option \<Rightarrow> bool \<Rightarrow> 'n) option"
  searchable :: bool
  zIndex :: int

record state =
  isOpen :: bool
  searchTerm :: jsstring
  selectedOptions :: "Option list"
  highlightedIndex :: "int option"

definition initial_state :: state where
  "initial_state =
     \<lparr>isOpen = False, searchTerm = [], selectedOptions = [], highlightedIndex = None\<rparr>"

text \<open>The argument of \<open>onChange\<close>, of the union type \<open>Option | Option[]\<close>.\<close>

datatype onChange_arg = One Option | Many "Option list"

text \<open>
  The calls a handler makes. \<open>setHighlightedIndex\<close> is only ever called with an
  updater function of the previous value.
\<close>

datatype action =
    SetIsOpen bool
  | SetSearchTerm jsstring
  | SetSelectedOptions "Option list"
  | SetHighlightedIndex "int option \<Rightarrow> int option"
  | OnChange onChange_arg

fun apply_action :: "state \<Rightarrow> action \<Rightarrow> state" where
  "apply_action st (SetIsOpen b) = st\<lparr>isOpen := b\<rparr>"
| "apply_action st (SetSearchTerm s) = st\<lparr>searchTerm := s\<rparr>"
| "apply_action st (SetSelectedOptions xs) = st\<lparr>selectedOptions := xs\<rparr>"
| "apply_action st (SetHighlightedIndex f) = st\<lparr>highlightedIndex := f (highlightedIndex st)\<rparr>"
| "apply_action st (OnChange a) = st"

definition commit :: "state \<Rightarrow> action list \<Rightarrow> state" where
  "commit st acts = foldl apply_action st acts"

fun notification :: "action \<Rightarrow> onChange_arg list" where
  "notification (OnChange a) = [a]"
| "notification _ = []"

definition notifications :: "action list \<Rightarrow> onChange_arg list" where
  "notifications acts = concat (map notification acts)"

datatype error = TypeError

subsection \<open>Selection handlers\<close>

definition handleOptionClick :: "'n props \<Rightarrow> Option \<Rightarrow> state \<Rightarrow> action list" where
  "handleOptionClick p option st =
     (if isMultiple p then
        let isSelected =
              list_ex (\<lambda>selected. value_of selected = value_of option) (selectedOptions st);
            newSelectedOptions =
              (if isSelected
               then filter (\<lambda>selected. value_of selected \<noteq> value_of option) (selectedOptions st)
               else selectedOptions st @ [option])
        in [SetSelectedOptions newSelectedOptions, OnChange (Many newSelectedOptions)]
      else [SetSelectedOptions [option], OnChange (One option), SetIsOpen False])"

definition handleRemoveOption :: "'n props \<Rightarrow> Option \<Rightarrow> state \<Rightarrow> action list" where
  "handleRemoveOption p option st =
     (let newSelectedOptions =
            filter (\<lambda>selected. value_of selected \<noteq> value_of option) (selectedOptions st)
      in [SetSelectedOptions newSelectedOptions, OnChange (Many newSelectedOptions)])"

definition handleSearchChange :: "jsstring \<Rightarrow> action list" where
  "handleSearchChange target_value = [SetSearchTerm target_value]"

definition handleToggle :: "state \<Rightarrow> action list" where
  "handleToggle st = [SetIsOpen (\<not> isOpen st)]"

subsection \<open>Outside clicks\<close>

text \<open>
  A DOM node is a number; the subtree of an element is the list of the nodes it
  contains, itself included, so that \<open>el.contains(target)\<close> is membership. A ref is
  \<open>None\<close> while its element is not mounted.
\<close>

type_synonym node = nat

definition contains :: "node list \<Rightarrow> node \<Rightarrow> bool" where
  "contains subtree target = (target \<in> set subtree)"

definition handleClickOutside :: "node list option \<Rightarrow> node list option \<Rightarrow> node \<Rightarrow> action list" where
  "handleClickOutside dropdownRef dropdownMenuRef target =
     (case dropdownRef of
        None \<Rightarrow> []
      | Some wrapper \<Rightarrow>
          (case dropdownMenuRef of
             None \<Rightarrow> []
           | Some menu \<Rightarrow>
               if \<not> contains wrapper target \<and> \<not> contains menu target
               then [SetIsOpen False] else []))"

text \<open>
  The wrapper \<open>div\<close> carries \<open>dropdownRef\<close> and is mounted as long as the component
  is; the panel carries \<open>dropdownMenuRef\<close> and is rendered only while \<open>isOpen\<close>.
\<close>

record layout =
  wrapper_subtree :: "node list"
  menu_subtree :: "node list"

definition dropdownRef_current :: "layout \<Rightarrow> node list option" where
  "dropdownRef_current lay = Some (wrapper_subtree lay)"

definition dropdownMenuRef_current :: "layout \<Rightarrow> state \<Rightarrow> node list option" where
  "dropdownMenuRef_current lay st = (if isOpen st then Some (menu_subtree lay) else None)"

subsection \<open>Keyboard navigation\<close>

datatype key = ArrowDown | ArrowUp | Enter | OtherKey

text \<open>
  \<open>xs[i]\<close> in JavaScript: \<open>undefined\<close> (here \<open>None\<close>) for an index that is not a
  position of the array.
\<close>

definition js_index :: "'a list \<Rightarrow> int \<Rightarrow> 'a option" where
  "js_index xs i = (if 0 \<le> i \<and> i < int (length xs) then Some (xs ! nat i) else None)"

text \<open>
  \<open>Enter\<close> calls \<open>handleOptionClick(options[highlightedIndex])\<close>. With
  \<open>undefined\<close> for the option, \<open>option.value\<close> is read of \<open>undefined\<close>: by the
  callback of \<open>some\<close> inside the handler when something is selected, and otherwise by
  the render of the chips of the stored \<open>[undefined]\<close> (\<open>opt.value\<close>), which
  follows the handler. Both raise a TypeError, the result of the handler here.
\<close>

definition handleKeyDown :: "'n props \<Rightarrow> key \<Rightarrow> state \<Rightarrow> error + action list" where
  "handleKeyDown p k st =
     (case k of
        ArrowDown \<Rightarrow>
          Inr [SetHighlightedIndex (\<lambda>prev.
                 case prev of
                   None \<Rightarrow> Some 0
                 | Some i \<Rightarrow> if i = int (length (options p)) - 1 then Some 0 else Some (i + 1))]
      | ArrowUp \<Rightarrow>
          Inr [SetHighlightedIndex (\<lambda>prev.
                 case prev of
                   None \<Rightarrow> Some (int (length (options p)) - 1)
                 | Some i \<Rightarrow> if i = 0 then Some (int (length (options p)) - 1) else Some (i - 1))]
      | Enter \<Rightarrow>
          (case highlightedIndex st of
             None \<Rightarrow> Inr []
           | Some i \<Rightarrow>
               (case js_index (options p) i of
                  None \<Rightarrow> Inl TypeError
                | Some option \<Rightarrow> Inr (handleOptionClick p option st)))
      | OtherKey \<Rightarrow> Inr [])"

subsection \<open>Rendering\<close>

text \<open>
  \<open>classNames(base, {c1: b1, ...})\<close>: the base classes, then every key whose value
  is true, in the order of the object literal.
\<close>

definition classNames :: "string \<Rightarrow> (string \<times> bool) list \<Rightarrow> string list" where
  "classNames base conds = base # map fst (filter snd conds)"

text \<open>
  \<open>s.indexOf(pat)\<close>: the least position at which \<open>pat\<close> occurs in \<open>s\<close>, or
  \<open>-1\<close>. The empty pattern occurs at position 0.
\<close>

fun indexOf_from :: "jsstring \<Rightarrow> jsstring \<Rightarrow> nat \<Rightarrow> int" where
  "indexOf_from [] pat k = (if pat = [] then int k else - 1)"
| "indexOf_from (c # cs) pat k =
     (if prefix pat (c # cs) then int k else indexOf_from cs pat (Suc k))"

definition indexOf :: "jsstring \<Rightarrow> jsstring \<Rightarrow> int" where
  "indexOf s pat = indexOf_from s pat 0"

text \<open>
  \<open>s.slice(start, stop)\<close>: a negative bound counts from the end, both bounds are
  clamped to the string, and an empty range gives the empty string.
\<close>

definition slice :: "jsstring \<Rightarrow> int \<Rightarrow> int \<Rightarrow> jsstring" where
  "slice s start stop =
     (let len = int (length s);
          lo = (if start < 0 then max (len + start) 0 else min start len);
          hi = (if stop < 0 then max (len + stop) 0 else min stop len)
      in take (nat (hi - lo)) (drop (nat lo) s))"

definition slice_from :: "jsstring \<Rightarrow> int \<Rightarrow> jsstring" where
  "slice_from s start = slice s start (int (length s))"

text \<open>
  The children of a built-in option: the label as it is, or the three slices of it, the
  middle one inside the red \<open>span\<close>.
\<close>

datatype label_view = Plain jsstring | Marked jsstring jsstring jsstring

text \<open>The \<open>onClick\<close> closures of the component's elements.\<close>

datatype handler = HandleToggle | HandleRemoveOption Option | HandleOptionClick Option

record option_div =
  div_key :: ident
  div_className :: "string list"
  div_onClick :: handler
  div_children :: label_view

text \<open>
  \<open>toLowerCase\<close> is the runtime's; the Unicode tables that define it are not part of
  the repository, so the renderer takes the function as its first argument. The class
  \<open>bg-yellow-100\<close> is the overlay of the keyboard highlight; its condition is
  \<open>highlightedIndex !== null && highlightedIndex === option.value\<close>.
\<close>

definition renderDefaultOption ::
    "(jsstring \<Rightarrow> jsstring) \<Rightarrow> state \<Rightarrow> Option \<Rightarrow> bool \<Rightarrow> option_div" where
  "renderDefaultOption toLowerCase st option isSelected =
     (let matchStartIndex = indexOf (toLowerCase (label option)) (toLowerCase (searchTerm st));
          matchEndIndex = matchStartIndex + int (length (searchTerm st))
      in \<lparr>div_key = value_of option,
          div_className =
            classNames ''cursor-pointer px-4 py-2''
              [(''bg-blue-500 text-white'', isSelected),
               (''bg-white text-black'', \<not> isSelected),
               (''bg-yellow-100'',
                  (case highlightedIndex st of
                     None \<Rightarrow> False
                   | Some i \<Rightarrow> NumV i = value_of option))],
          div_onClick = HandleOptionClick option,
          div_children =
            (if matchStartIndex > - 1
             then Marked (slice (label option) 0 matchStartIndex)
                         (slice (label option) matchStartIndex matchEndIndex)
                         (slice_from (label option) matchEndIndex)
             else Plain (label option))\<rparr>)"

datatype 'n option_node = Custom 'n | Builtin option_div

definition dropdownMenu_options ::
    "(jsstring \<Rightarrow> jsstring) \<Rightarrow> 'n props \<Rightarrow> state \<Rightarrow> 'n option_node list" where
  "dropdownMenu_options toLowerCase p st =
     map (\<lambda>option.
            case renderOption p of
              Some render \<Rightarrow>
                Custom (render option
                  (list_ex (\<lambda>selected. value_of selected = value_of option) (selectedOptions st)))
            | None \<Rightarrow>
                Builtin (renderDefaultOption toLowerCase st option
                  (list_ex (\<lambda>selected. value_of selected = value_of option) (selectedOptions st))))
         (options p)"

text \<open>
  The trigger: a \<open>div\<close> whose \<open>onClick\<close> is \<open>handleToggle\<close>, holding the
  placeholder or one \<open>span\<close> per selected option whose \<open>onClick\<close> removes it.
\<close>

record chip =
  chip_key :: ident
  chip_onClick :: handler
  chip_text :: jsstring

datatype trigger_children = Placeholder | Chips "chip list"

definition trigger_content :: "state \<Rightarrow> trigger_children" where
  "trigger_content st =
     (if length (selectedOptions st) = 0 then Placeholder
      else Chips (map (\<lambda>opt. \<lparr>chip_key = value_of opt,
                                chip_onClick = HandleRemoveOption opt,
                                chip_text = label opt\<rparr>) (selectedOptions st)))"

definition trigger_onClick :: handler where
  "trigger_onClick = HandleToggle"

subsection \<open>Events\<close>

text \<open>
  Calling an \<open>onClick\<close> closure of the render of \<open>st\<close>. A click runs the closures
  of the elements from its target up to the root, all of them of the same render; no
  handler of the component asks for the propagation to stop.
\<close>

fun fire :: "'n props \<Rightarrow> state \<Rightarrow> handler \<Rightarrow> action list" where
  "fire p st HandleToggle = handleToggle st"
| "fire p st (HandleRemoveOption opt) = handleRemoveOption p opt st"
| "fire p st (HandleOptionClick option) = handleOptionClick p option st"

definition click :: "'n props \<Rightarrow> state \<Rightarrow> handler list \<Rightarrow> action list" where
  "click p st path = concat (map (fire p st) path)"

text \<open>
  The events the component reacts to, each named by its target: the trigger itself, the
  chip at a position of the selection, the option at a position of the list, a key
  pressed in the search input, a mouse button pressed on a node of the document, and an
  edit of the search input. An event whose target is not rendered does nothing. The
  search input, which carries \<open>onKeyDown\<close> and \<open>onChange\<close>, is inside the panel and
  rendered only when \<open>searchable\<close>.
\<close>

datatype event =
    ClickTrigger
  | ClickChip nat
  | ClickOption nat
  | KeyDown key
  | MouseDown node
  | ChangeSearch jsstring

definition dispatch ::
    "(jsstring \<Rightarrow> jsstring) \<Rightarrow> 'n props \<Rightarrow> layout \<Rightarrow> state \<Rightarrow> event \<Rightarrow> error + action list" where
  "dispatch toLowerCase p lay st ev =
     (case ev of
        ClickTrigger \<Rightarrow> Inr (click p st [trigger_onClick])
      | ClickChip i \<Rightarrow>
          (case trigger_content st of
             Placeholder \<Rightarrow> Inr []
           | Chips cs \<Rightarrow>
               if i < length cs then Inr (click p st [chip_onClick (cs ! i), trigger_onClick])
               else Inr [])
      | ClickOption i \<Rightarrow>
          if isOpen st \<and> i < length (dropdownMenu_options toLowerCase p st)
          then (case dropdownMenu_options toLowerCase p st ! i of
                  Custom n \<Rightarrow> Inr []
                | Builtin d \<Rightarrow> Inr (click p st [div_onClick d]))
          else Inr []
      | KeyDown k \<Rightarrow>
          if isOpen st \<and> searchable p then handleKeyDown p k st else Inr []
      | MouseDown target \<Rightarrow>
          Inr (handleClickOutside (dropdownRef_current lay) (dropdownMenuRef_current lay st) target)
      | ChangeSearch s \<Rightarrow>
          if isOpen st \<and> searchable p then Inr (handleSearchChange s) else Inr [])"

text \<open>
  A run of events from a state: the state after the last one and the \<open>onChange\<close>
  calls made on the way, or the first error.
\<close>

fun run ::
    "(jsstring \<Rightarrow> jsstring) \<Rightarrow> 'n props \<Rightarrow> layout \<Rightarrow> state \<Rightarrow> event list
       \<Rightarrow> error + (state \<times> onChange_arg list)" where
  "run toLowerCase p lay st [] = Inr (st, [])"
| "run toLowerCase p lay st (ev # evs) =
     (case dispatch toLowerCase p lay st ev of
        Inl e \<Rightarrow> Inl e
      | Inr acts \<Rightarrow>
          (case run toLowerCase p lay (commit st acts) evs of
             Inl e \<Rightarrow> Inl e
           | Inr (st', ns) \<Rightarrow> Inr (st', notifications acts @ ns)))"

subsection \<open>The operations of the selection model and their properties\<close>

text \<open>The state after the handler of a click on an option, and of a click on a chip.\<close>

definition toggle :: "'n props \<Rightarrow> Option \<Rightarrow> state \<Rightarrow> state" where
  "toggle p option st = commit st (handleOptionClick p option st)"

definition remove :: "'n props \<Rightarrow> Option \<Rightarrow> state \<Rightarrow> state" where
  "remove p option st = commit st (handleRemoveOption p option st)"

text \<open>
  Following the spec: \<open>onChange\<close> is called exactly once, with the full updated
  sequence in multi-select mode and with the single updated Option in single-select
  mode.
\<close>

definition spec_onChange_by_mode :: "'n props \<Rightarrow> state \<Rightarrow> action list \<Rightarrow> bool" where
  "spec_onChange_by_mode p st acts =
     (if isMultiple p
      then notifications acts = [Many (selectedOptions (commit st acts))]
      else (case selectedOptions (commit st acts) of
              [x] \<Rightarrow> notifications acts = [One x]
            | _ \<Rightarrow> False))"

text \<open>
  Following the spec: no two selected options share a value, and in single-select mode
  at most one option is selected.
\<close>

definition selection_invariant :: "'n props \<Rightarrow> state \<Rightarrow> bool" where
  "selection_invariant p st =
     (distinct (map value_of (selectedOptions st)) \<and>
      (\<not> isMultiple p \<longrightarrow> length (selectedOptions st) \<le> 1))"

text \<open>What holds of every state a run reaches: the selection is also drawn from the list.\<close>

definition reach_invariant :: "'n props \<Rightarrow> state \<Rightarrow> bool" where
  "reach_invariant p st =
     (selection_invariant p st \<and> set (selectedOptions st) \<subseteq> set (options p))"

text \<open>
  Following the spec: ArrowDown goes from \<open>null\<close> to 0, from the last index to 0 and
  from any other index to the next one; ArrowUp goes from \<open>null\<close> and from 0 to the
  last index and from any other index to the one before. \<open>n\<close> is the length of the
  options list.
\<close>

definition spec_ArrowDown :: "nat \<Rightarrow> int option \<Rightarrow> int" where
  "spec_ArrowDown n h =
     (case h of None \<Rightarrow> 0 | Some i \<Rightarrow> if i = int n - 1 then 0 else i + 1)"

definition spec_ArrowUp :: "nat \<Rightarrow> int option \<Rightarrow> int" where
  "spec_ArrowUp n h =
     (case h of None \<Rightarrow> int n - 1 | Some i \<Rightarrow> if i = 0 then int n - 1 else i - 1)"

definition highlight_in_range :: "'n props \<Rightarrow> state \<Rightarrow> bool" where
  "highlight_in_range p st =
     (case highlightedIndex st of
        None \<Rightarrow> False
      | Some i \<Rightarrow> 0 \<le> i \<and> i < int (length (options p)))"

definition has_overlay :: "'n option_node \<Rightarrow> bool" where
  "has_overlay n =
     (case n of
        Custom c \<Rightarrow> False
      | Builtin d \<Rightarrow> ''bg-yellow-100'' \<in> set (div_className d))"

subsection \<open>Concrete inputs\<close>

text \<open>
  \<open>toLowerCase\<close> on strings whose code units are below U+0100 or are U+0130: the
  capital letters of Basic Latin and of the Latin-1 Supplement move up by 32, and
  U+0130 (capital I with dot above) becomes the two code units U+0069 U+0307, the one
  lower-case mapping of the Unicode default case conversion that makes a string
  longer. Code units outside that range are left as they are here, so the function
  stands for the runtime's only on strings inside it.
\<close>

definition toLowerCase_unit :: "16 word \<Rightarrow> jsstring" where
  "toLowerCase_unit u =
     (if 0x41 \<le> u \<and> u \<le> 0x5A then [u + 0x20]
      else if 0xC0 \<le> u \<and> u \<le> 0xDE \<and> u \<noteq> 0xD7 then [u + 0x20]
      else if u = 0x130 then [0x69, 0x307]
      else [u])"

definition toLowerCase_latin :: "jsstring \<Rightarrow> jsstring" where
  "toLowerCase_latin s = concat (map toLowerCase_unit s)"

text \<open>The options of the spec's scenarios, and a label that starts with U+0130.\<close>

definition apple :: Option where
  "apple = \<lparr>value_of = NumV 1, label = utf16 ''Apple''\<rparr>"

definition banana :: Option where
  "banana = \<lparr>value_of = NumV 2, label = utf16 ''Banana''\<rparr>"

definition istanbul :: Option where
  "istanbul = \<lparr>value_of = NumV 34, label = 0x130 # utf16 ''stanbul''\<rparr>"

definition fruit_props :: "bool \<Rightarrow> unit props" where
  "fruit_props multiple =
     \<lparr>options = [apple, banana], isMultiple = multiple, portal = False,
      renderOption = None, searchable = True, zIndex = 50\<rparr>"

definition no_options :: "unit props" where
  "no_options =
     \<lparr>options = [], isMultiple = True, portal = False,
      renderOption = None, searchable = True, zIndex = 50\<rparr>"

text \<open>
  A page on which the wrapper holds the nodes 1 to 5, the panel being the nodes 4 and 5
  inside it.
\<close>

definition page :: layout where
  "page = \<lparr>wrapper_subtree = [1, 2, 3, 4, 5], menu_subtree = [4, 5]\<rparr>"

definition both_selected :: state where
  "both_selected = initial_state\<lparr>isOpen := True, selectedOptions := [apple, banana]\<rparr>"

definition only_banana :: state where
  "only_banana = initial_state\<lparr>selectedOptions := [banana]\<rparr>"

definition searching :: "jsstring \<Rightarrow> state" where
  "searching s = initial_state\<lparr>isOpen := True, searchTerm := s\<rparr>"

text \<open>
  The two fruits without the search input, and with a renderer of the caller that draws
  an option as its label; the panel open with a position highlighted.
\<close>

definition fruit_props_unsearchable :: "unit props" where
  "fruit_props_unsearchable =
     \<lparr>options = [apple, banana], isMultiple = True, portal = False,
      renderOption = None, searchable = False, zIndex = 50\<rparr>"

definition fruit_props_custom :: "jsstring props" where
  "fruit_props_custom =
     \<lparr>options = [apple, banana], isMultiple = True, portal = False,
      renderOption = Some (\<lambda>option isSelected. label option), searchable = True, zIndex = 50\<rparr>"

definition open_at :: "int option \<Rightarrow> state" where
  "open_at h = initial_state\<lparr>isOpen := True, highlightedIndex := h\<rparr>"

section \<open>Properties\<close>

subsection \<open>Committing the calls of a handler\<close>

lemma commit_Nil: "commit st [] = st"
  by (simp add: commit_def)

lemma commit_Cons: "commit st (a # acts) = commit (apply_action st a) acts"
  by (simp add: commit_def)

lemma commit_append: "commit st (xs @ ys) = commit (commit st xs) ys"
  by (simp add: commit_def)

lemma notifications_simps:
  "notifications [] = []"
  "notifications (OnChange a # acts) = a # notifications acts"
  "notifications (SetIsOpen b # acts) = notifications acts"
  "notifications (SetSearchTerm s # acts) = notifications acts"
  "notifications (SetSelectedOptions xs # acts) = notifications acts"
  "notifications (SetHighlightedIndex f # acts) = notifications acts"
  by (simp_all add: notifications_def)

lemma toggle_multi:
  assumes "isMultiple (p :: 'n props)"
  shows "toggle p option st =
     st\<lparr>selectedOptions :=
          (if value_of option \<in> value_of ` set (selectedOptions st)
           then filter (\<lambda>selected. value_of selected \<noteq> value_of option) (selectedOptions st)
           else selectedOptions st @ [option])\<rparr>"
proof -
  have "list_ex (\<lambda>selected. value_of selected = value_of option) (selectedOptions st)
          \<longleftrightarrow> value_of option \<in> value_of ` set (selectedOptions st)"
    unfolding list_ex_iff image_iff by metis
  with assms show ?thesis
    by (simp add: toggle_def handleOptionClick_def Let_def commit_Cons commit_Nil)
qed

lemma toggle_single:
  "\<not> isMultiple p \<Longrightarrow> toggle p option st = st\<lparr>selectedOptions := [option], isOpen := False\<rparr>"
  by (simp add: toggle_def handleOptionClick_def commit_Cons commit_Nil)

lemma remove_eq:
  "remove p option st =
     st\<lparr>selectedOptions :=
          filter (\<lambda>selected. value_of selected \<noteq> value_of option) (selectedOptions st)\<rparr>"
  by (simp add: remove_def handleRemoveOption_def Let_def commit_Cons commit_Nil)

subsection \<open>Lists of options with distinct values\<close>

lemma length_filter_le_1: "length xs \<le> Suc 0 \<Longrightarrow> length (filter P xs) \<le> Suc 0"
  using length_filter_le [of P xs] by linarith

lemma filter_value_eq:
  assumes "distinct (map value_of ys)" "set xs \<subseteq> set ys" "option \<in> set ys"
  shows "filter (\<lambda>selected. value_of selected \<noteq> value_of option) xs
           = filter (\<lambda>selected. selected \<noteq> option) xs"
proof (rule filter_cong [OF refl])
  fix x assume "x \<in> set xs"
  with assms(2) have "x \<in> set ys" by blast
  with assms(1,3) have "value_of x = value_of option \<longleftrightarrow> x = option"
    by (meson distinct_map inj_on_def)
  then show "(value_of x \<noteq> value_of option) = (x \<noteq> option)" by simp
qed

lemma value_mem_iff:
  assumes "distinct (map value_of ys)" "set xs \<subseteq> set ys" "option \<in> set ys"
  shows "value_of option \<in> value_of ` set xs \<longleftrightarrow> option \<in> set xs"
proof
  assume "value_of option \<in> value_of ` set xs"
  then obtain x where x: "x \<in> set xs" "value_of x = value_of option" by force
  with assms(2) have "x \<in> set ys" by blast
  with assms(1,3) x(2) have "x = option" by (meson distinct_map inj_on_def)
  with x(1) show "option \<in> set xs" by simp
qed simp

lemma filter_neq_append_last:
  assumes "distinct xs" "x \<in> set xs"
  shows "filter (\<lambda>y. y \<noteq> x) xs @ [x] = xs \<longleftrightarrow> last xs = x"
proof
  assume "filter (\<lambda>y. y \<noteq> x) xs @ [x] = xs"
  then have "last xs = last (filter (\<lambda>y. y \<noteq> x) xs @ [x])" by simp
  then show "last xs = x" by simp
next
  assume l: "last xs = x"
  from assms(2) have "xs \<noteq> []" by auto
  then have xs: "xs = butlast xs @ [x]" using l by (metis append_butlast_last_id)
  with assms(1) have "distinct (butlast xs @ [x])" by simp
  then have "x \<notin> set (butlast xs)" by simp
  then have "filter (\<lambda>y. y \<noteq> x) (butlast xs) = butlast xs"
    by (auto simp: filter_id_conv)
  then have "filter (\<lambda>y. y \<noteq> x) (butlast xs @ [x]) @ [x] = butlast xs @ [x]" by simp
  with xs show "filter (\<lambda>y. y \<noteq> x) xs @ [x] = xs" by simp
qed

lemma length_filter_neq:
  assumes "distinct xs" "x \<in> set xs"
  shows "Suc (length (filter (\<lambda>y. y \<noteq> x) xs)) = length xs"
proof -
  have "filter (\<lambda>y. y \<noteq> x) xs = removeAll x xs"
    by (induction xs) auto
  also have "\<dots> = remove1 x xs"
    using assms(1) by (simp add: distinct_remove1_removeAll)
  finally have "length (filter (\<lambda>y. y \<noteq> x) xs) = length xs - 1"
    using assms(2) by (simp add: length_remove1)
  moreover from assms(2) have "0 < length xs" by (rule length_pos_if_in_set)
  ultimately show ?thesis by simp
qed

subsection \<open>What every event preserves\<close>

lemma initial_reach_invariant: "reach_invariant p initial_state"
  by (simp add: reach_invariant_def selection_invariant_def initial_state_def)

lemma reach_invariant_frame:
  "reach_invariant p st \<Longrightarrow> selectedOptions st' = selectedOptions st \<Longrightarrow> reach_invariant p st'"
  by (simp add: reach_invariant_def selection_invariant_def)

lemma toggle_selection_invariant:
  assumes "selection_invariant p st"
  shows "selection_invariant p (toggle p option st)"
proof (cases "isMultiple p")
  case True
  with assms show ?thesis
    by (auto simp: selection_invariant_def toggle_multi distinct_map_filter)
next
  case False
  with assms show ?thesis
    by (simp add: selection_invariant_def toggle_single)
qed

lemma toggle_reach_invariant:
  assumes "reach_invariant p st" "option \<in> set (options p)"
  shows "reach_invariant p (toggle p option st)"
proof (cases "isMultiple p")
  case True
  with assms show ?thesis
    by (auto simp: reach_invariant_def selection_invariant_def toggle_multi distinct_map_filter)
next
  case False
  with assms show ?thesis
    by (simp add: reach_invariant_def selection_invariant_def toggle_single)
qed

lemma remove_selection_invariant:
  assumes "selection_invariant p st"
  shows "selection_invariant p (remove p option st)"
  using assms
  by (auto simp: selection_invariant_def remove_eq distinct_map_filter length_filter_le_1)

lemma remove_reach_invariant:
  assumes "reach_invariant p st"
  shows "reach_invariant p (remove p option st)"
  using assms remove_selection_invariant [of p st option]
  by (auto simp: reach_invariant_def remove_eq)

lemma handleKeyDown_reach_invariant:
  assumes "reach_invariant p st" "handleKeyDown p k st = Inr acts"
  shows "reach_invariant p (commit st acts)"
proof (cases k)
  case Enter
  show ?thesis
  proof (cases "highlightedIndex st")
    case None
    with Enter assms show ?thesis by (auto simp: handleKeyDown_def commit_Nil)
  next
    case (Some i)
    with Enter assms obtain option where o: "js_index (options p) i = Some option"
      and a: "acts = handleOptionClick p option st"
      by (auto simp: handleKeyDown_def split: option.splits)
    from o have "option \<in> set (options p)"
      by (auto simp: js_index_def split: if_splits)
    with assms(1) a show ?thesis
      using toggle_reach_invariant [of p st option] by (simp add: toggle_def)
  qed
next
  case ArrowDown
  with assms(2) have "selectedOptions (commit st acts) = selectedOptions st"
    by (auto simp: handleKeyDown_def commit_Cons commit_Nil)
  with assms(1) show ?thesis by (rule reach_invariant_frame)
next
  case ArrowUp
  with assms(2) have "selectedOptions (commit st acts) = selectedOptions st"
    by (auto simp: handleKeyDown_def commit_Cons commit_Nil)
  with assms(1) show ?thesis by (rule reach_invariant_frame)
next
  case OtherKey
  with assms show ?thesis by (auto simp: handleKeyDown_def commit_Nil)
qed

lemma dispatch_reach_invariant:
  assumes "reach_invariant p st" "dispatch lc p lay st ev = Inr acts"
  shows "reach_invariant p (commit st acts)"
proof (cases ev)
  case ClickTrigger
  with assms(2) have "selectedOptions (commit st acts) = selectedOptions st"
    by (auto simp: dispatch_def click_def trigger_onClick_def handleToggle_def commit_Cons
          commit_Nil)
  with assms(1) show ?thesis by (rule reach_invariant_frame)
next
  case (ClickChip i)
  show ?thesis
  proof (cases "i < length (selectedOptions st)")
    case True
    then have ne: "selectedOptions st \<noteq> []" by auto
    with True ClickChip assms(2)
    have a: "acts = handleRemoveOption p (selectedOptions st ! i) st @ handleToggle st"
      by (auto simp: dispatch_def trigger_content_def click_def trigger_onClick_def)
    have "commit st acts = (remove p (selectedOptions st ! i) st)\<lparr>isOpen := \<not> isOpen st\<rparr>"
      by (simp add: a commit_append remove_def [symmetric] handleToggle_def commit_Cons commit_Nil)
    with remove_reach_invariant [OF assms(1), of "selectedOptions st ! i"] show ?thesis
      by (simp add: reach_invariant_frame)
  next
    case False
    with ClickChip assms show ?thesis
      by (auto simp: dispatch_def trigger_content_def commit_Nil split: if_splits)
  qed
next
  case (ClickOption i)
  show ?thesis
  proof (cases "isOpen st \<and> i < length (options p) \<and> renderOption p = None")
    case True
    with ClickOption assms(2) have a: "acts = handleOptionClick p (options p ! i) st"
      by (auto simp: dispatch_def dropdownMenu_options_def click_def renderDefaultOption_def
            Let_def)
    from True have "options p ! i \<in> set (options p)" by simp
    with assms(1) a show ?thesis
      using toggle_reach_invariant [of p st "options p ! i"] by (simp add: toggle_def)
  next
    case False
    with ClickOption assms show ?thesis
      by (auto simp: dispatch_def dropdownMenu_options_def commit_Nil
            split: if_splits option.splits)
  qed
next
  case (KeyDown k)
  with assms show ?thesis
    using handleKeyDown_reach_invariant [of p st k acts]
    by (auto simp: dispatch_def commit_Nil split: if_splits)
next
  case (MouseDown t)
  with assms(2) have "selectedOptions (commit st acts) = selectedOptions st"
    by (auto simp: dispatch_def handleClickOutside_def commit_Cons commit_Nil
          split: option.splits if_splits)
  with assms(1) show ?thesis by (rule reach_invariant_frame)
next
  case (ChangeSearch s)
  with assms(2) have "selectedOptions (commit st acts) = selectedOptions st"
    by (auto simp: dispatch_def handleSearchChange_def commit_Cons commit_Nil
          split: if_splits)
  with assms(1) show ?thesis by (rule reach_invariant_frame)
qed

lemma run_reach_invariant:
  assumes "reach_invariant p st" "run lc p lay st evs = Inr (st', ns)"
  shows "reach_invariant p st'"
  using assms
proof (induction evs arbitrary: st ns)
  case Nil
  then show ?case by simp
next
  case (Cons ev evs)
  from Cons.prems(2) obtain acts ns' where
    d: "dispatch lc p lay st ev = Inr acts" and
    r: "run lc p lay (commit st acts) evs = Inr (st', ns')"
    by (auto split: sum.splits)
  from dispatch_reach_invariant [OF Cons.prems(1) d] r show ?case
    by (rule Cons.IH)
qed

subsection \<open>Searching and slicing\<close>

lemma indexOf_from_cases:
  "indexOf_from s pat k = - 1 \<and> (\<forall>j\<le>length s. \<not> prefix pat (drop j s))
   \<or> (\<exists>j\<le>length s. indexOf_from s pat k = int (k + j) \<and> prefix pat (drop j s) \<and>
          (\<forall>i<j. \<not> prefix pat (drop i s)))"
proof (induction s arbitrary: k)
  case Nil
  then show ?case by auto
next
  case (Cons c cs)
  show ?case
  proof (cases "prefix pat (c # cs)")
    case True
    then show ?thesis by auto
  next
    case False
    from Cons.IH [of "Suc k"] show ?thesis
    proof
      assume a: "indexOf_from cs pat (Suc k) = - 1 \<and> (\<forall>j\<le>length cs. \<not> prefix pat (drop j cs))"
      have "\<not> prefix pat (drop j (c # cs))" if "j \<le> length (c # cs)" for j
        using that a False by (cases j) auto
      with a False show ?thesis by simp
    next
      assume "\<exists>j\<le>length cs. indexOf_from cs pat (Suc k) = int (Suc k + j) \<and>
                prefix pat (drop j cs) \<and> (\<forall>i<j. \<not> prefix pat (drop i cs))"
      then obtain j where j: "j \<le> length cs" "indexOf_from cs pat (Suc k) = int (Suc k + j)"
        "prefix pat (drop j cs)" "\<forall>i<j. \<not> prefix pat (drop i cs)" by blast
      have "\<not> prefix pat (drop i (c # cs))" if "i < Suc j" for i
        using that j(4) False by (cases i) auto
      with j False have "Suc j \<le> length (c # cs) \<and>
          indexOf_from (c # cs) pat k = int (k + Suc j) \<and> prefix pat (drop (Suc j) (c # cs)) \<and>
          (\<forall>i<Suc j. \<not> prefix pat (drop i (c # cs)))"
        by simp
      then show ?thesis by blast
    qed
  qed
qed

lemma indexOf_cases:
  "indexOf s pat = - 1 \<and> (\<forall>j\<le>length s. \<not> prefix pat (drop j s))
   \<or> (\<exists>j\<le>length s. indexOf s pat = int j \<and> prefix pat (drop j s) \<and>
          (\<forall>i<j. \<not> prefix pat (drop i s)))"
  using indexOf_from_cases [of s pat 0] by (simp add: indexOf_def)

lemma slice_nat: "slice s (int a) (int b) = take (b - a) (drop a s)"
proof (cases "a < length s")
  case True
  then have "nat (min (int b) (int (length s)) - int a) = min b (length s) - a"
    by (simp add: min_def; arith)
  moreover have "take (min b (length s) - a) (drop a s) = take (b - a) (drop a s)"
    using True by (simp add: min_def)
  ultimately show ?thesis using True by (simp add: slice_def Let_def min_def)
next
  case False
  then show ?thesis by (simp add: slice_def Let_def min_def)
qed

lemma slice_from_nat: "slice_from s (int a) = drop a s"
  using slice_nat [of s a "length s"] by (simp add: slice_from_def)

lemma slice_0: "slice s 0 (int b) = take b s"
  using slice_nat [of s 0 b] by simp

lemma three_slices: "take j s @ take m (drop j s) @ drop (j + m) s = s"
proof -
  have "take m (drop j s) @ drop (j + m) s = drop j s"
    by (metis add.commute append_take_drop_id drop_drop)
  then show ?thesis by simp
qed

text \<open>
  What the built-in renderer draws for the label, for any lowercasing function: the
  split is at the first position at which the lowercased search term occurs in the
  lowercased label, and that position is applied to the label itself.
\<close>

lemma renderDefaultOption_children:
  fixes lc :: "jsstring \<Rightarrow> jsstring" and option :: Option and st :: state
  defines "ll \<equiv> lc (label option)" and "lt \<equiv> lc (searchTerm st)"
  shows "(\<forall>j\<le>length ll. \<not> prefix lt (drop j ll)) \<and>
           div_children (renderDefaultOption lc st option sel) = Plain (label option)
       \<or> (\<exists>j\<le>length ll. prefix lt (drop j ll) \<and> (\<forall>i<j. \<not> prefix lt (drop i ll)) \<and>
            div_children (renderDefaultOption lc st option sel) =
              Marked (take j (label option))
                     (take (length (searchTerm st)) (drop j (label option)))
                     (drop (j + length (searchTerm st)) (label option)))"
proof -
  from indexOf_cases [of ll lt] show ?thesis
  proof
    assume "indexOf ll lt = - 1 \<and> (\<forall>j\<le>length ll. \<not> prefix lt (drop j ll))"
    then show ?thesis
      by (simp add: renderDefaultOption_def Let_def ll_def lt_def)
  next
    assume "\<exists>j\<le>length ll. indexOf ll lt = int j \<and> prefix lt (drop j ll) \<and>
              (\<forall>i<j. \<not> prefix lt (drop i ll))"
    then obtain j where j: "j \<le> length ll" "indexOf ll lt = int j" "prefix lt (drop j ll)"
      "\<forall>i<j. \<not> prefix lt (drop i ll)" by blast
    have "int j + int (length (searchTerm st)) = int (j + length (searchTerm st))" by simp
    with j(2) have "div_children (renderDefaultOption lc st option sel) =
        Marked (take j (label option))
               (take (length (searchTerm st)) (drop j (label option)))
               (drop (j + length (searchTerm st)) (label option))"
      unfolding renderDefaultOption_def Let_def ll_def [symmetric] lt_def [symmetric]
      by (simp only: slice_nat slice_from_nat slice_0 [symmetric]) (simp add: slice_0)
    with j show ?thesis by blast
  qed
qed

text \<open>
  When lowercasing changes the length of neither the label nor the search term, the
  marked slice has the length of the search term and the three slices make up the
  label.
\<close>

lemma renderDefaultOption_same_length:
  fixes lc :: "jsstring \<Rightarrow> jsstring" and option :: Option and st :: state
  assumes "length (lc (label option)) = length (label option)"
    and "length (lc (searchTerm st)) = length (searchTerm st)"
  shows "(\<forall>j\<le>length (label option). \<not> prefix (lc (searchTerm st)) (drop j (lc (label option)))) \<and>
           div_children (renderDefaultOption lc st option sel) = Plain (label option)
       \<or> (\<exists>j pre m suf.
            prefix (lc (searchTerm st)) (drop j (lc (label option))) \<and>
            (\<forall>i<j. \<not> prefix (lc (searchTerm st)) (drop i (lc (label option)))) \<and>
            div_children (renderDefaultOption lc st option sel) = Marked pre m suf \<and>
            length pre = j \<and> length m = length (searchTerm st) \<and>
            pre @ m @ suf = label option)"
proof -
  let ?ll = "lc (label option)" and ?lt = "lc (searchTerm st)"
  from renderDefaultOption_children [of lc option st sel] show ?thesis
  proof
    assume "(\<forall>j\<le>length ?ll. \<not> prefix ?lt (drop j ?ll)) \<and>
           div_children (renderDefaultOption lc st option sel) = Plain (label option)"
    with assms(1) show ?thesis by simp
  next
    assume "\<exists>j\<le>length ?ll. prefix ?lt (drop j ?ll) \<and> (\<forall>i<j. \<not> prefix ?lt (drop i ?ll)) \<and>
            div_children (renderDefaultOption lc st option sel) =
              Marked (take j (label option))
                     (take (length (searchTerm st)) (drop j (label option)))
                     (drop (j + length (searchTerm st)) (label option))"
    then obtain j where j: "j \<le> length ?ll" "prefix ?lt (drop j ?ll)"
      "\<forall>i<j. \<not> prefix ?lt (drop i ?ll)"
      "div_children (renderDefaultOption lc st option sel) =
              Marked (take j (label option))
                     (take (length (searchTerm st)) (drop j (label option)))
                     (drop (j + length (searchTerm st)) (label option))" by blast
    from j(2) have "length ?lt \<le> length (drop j ?ll)" by (rule prefix_length_le)
    with assms j(1) have fit: "j + length (searchTerm st) \<le> length (label option)" by simp
    then have "length (take j (label option)) = j"
      and "length (take (length (searchTerm st)) (drop j (label option))) = length (searchTerm st)"
      by simp_all
    with j(2,3,4) three_slices [of j "label option" "length (searchTerm st)"]
    show ?thesis by blast
  qed
qed

lemma dropdownMenu_options_nth:
  assumes "i < length (options p)"
  shows "dropdownMenu_options lc p st ! i =
        (case renderOption p of
           Some render \<Rightarrow> Custom (render (options p ! i)
             (list_ex (\<lambda>selected. value_of selected = value_of (options p ! i)) (selectedOptions st)))
         | None \<Rightarrow> Builtin (renderDefaultOption lc st (options p ! i)
             (list_ex (\<lambda>selected. value_of selected = value_of (options p ! i)) (selectedOptions st))))"
  using assms by (simp add: dropdownMenu_options_def)

lemma length_dropdownMenu_options:
  "length (dropdownMenu_options lc p st) = length (options p)"
  by (simp add: dropdownMenu_options_def)

lemma overlay_iff:
  "''bg-yellow-100'' \<in> set (div_className (renderDefaultOption lc st option sel))
     \<longleftrightarrow> (\<exists>i. highlightedIndex st = Some i \<and> value_of option = NumV i)"
  by (cases "highlightedIndex st")
     (auto simp: renderDefaultOption_def Let_def classNames_def)

subsection \<open>Runs of the scenarios\<close>

lemma fruit_simps:
  "options (fruit_props m) = [apple, banana]" "isMultiple (fruit_props m) = m"
  "renderOption (fruit_props m) = None" "searchable (fruit_props m) = True"
  by (simp_all add: fruit_props_def)

lemma run_both_selected:
  "run toLowerCase_latin (fruit_props True) page initial_state
       [ClickTrigger, ClickOption 0, ClickOption 1]
     = Inr (both_selected, [Many [apple], Many [apple, banana]])"
  by code_simp

text \<open>
  The spec's search scenario: with \<open>an\<close> typed, Banana is drawn with its first
  \<open>an\<close> marked and Apple is drawn unsplit.
\<close>

lemma search_an:
  "map (\<lambda>n. case n of Custom c \<Rightarrow> None | Builtin d \<Rightarrow> Some (div_children d))
       (dropdownMenu_options toLowerCase_latin (fruit_props True) (searching (utf16 ''an'')))
     = [Some (Plain (utf16 ''Apple'')),
        Some (Marked (utf16 ''B'') (utf16 ''an'') (utf16 ''ana''))]"
  by code_simp

lemma run_only_banana:
  "run toLowerCase_latin (fruit_props False) page initial_state
       [ClickTrigger, ClickOption 0, ClickTrigger, ClickOption 1]
     = Inr (only_banana, [One apple, One banana])"
  by code_simp

section \<open>The claims\<close>

text \<open>
  Claim C1, as the code has it. A click on an option, and Enter on a highlighted index
  that is a position of the list, call \<open>onChange\<close> exactly once, with the full
  updated selection in multi-select mode and with the option that is now the whole
  selection in single-select mode. Removing a chip calls \<open>onChange\<close> exactly once
  with the full updated selection, whatever the mode.
\<close>

theorem C1_onChange_shape:
  "spec_onChange_by_mode p st (handleOptionClick p option st) \<and>
   (\<forall>i opt. highlightedIndex st = Some i \<and> js_index (options p) i = Some opt \<longrightarrow>
      (\<exists>acts. handleKeyDown p Enter st = Inr acts \<and> spec_onChange_by_mode p st acts)) \<and>
   notifications (handleRemoveOption p option st) =
     [Many (selectedOptions (commit st (handleRemoveOption p option st)))]"
proof -
  have click: "spec_onChange_by_mode p st (handleOptionClick p opt st)" for opt
    by (simp add: spec_onChange_by_mode_def handleOptionClick_def Let_def notifications_simps
          commit_Cons commit_Nil)
  have enter: "\<exists>acts. handleKeyDown p Enter st = Inr acts \<and> spec_onChange_by_mode p st acts"
    if "highlightedIndex st = Some i" "js_index (options p) i = Some opt" for i opt
    using that click [of opt] by (simp add: handleKeyDown_def)
  have rem: "notifications (handleRemoveOption p option st) =
     [Many (selectedOptions (commit st (handleRemoveOption p option st)))]"
    by (simp add: handleRemoveOption_def Let_def notifications_simps commit_Cons commit_Nil)
  from click enter rem show ?thesis by blast
qed

text \<open>
  The theorem at the spec's options: a click on Banana notifies with the option in
  single-select mode and with the list in multi-select mode, and removing the chip in
  single-select mode notifies with the empty list.
\<close>

theorem C1_onChange_shape_witness:
  "spec_onChange_by_mode (fruit_props False) initial_state
      (handleOptionClick (fruit_props False) banana initial_state) \<and>
   notifications (handleOptionClick (fruit_props False) banana initial_state) = [One banana] \<and>
   notifications (handleOptionClick (fruit_props True) banana initial_state) = [Many [banana]] \<and>
   notifications (handleRemoveOption (fruit_props False) banana only_banana) = [Many []]"
  using C1_onChange_shape [of "fruit_props False" initial_state banana]
        C1_onChange_shape [of "fruit_props True" initial_state banana]
        C1_onChange_shape [of "fruit_props False" only_banana banana]
  by (simp add: fruit_simps spec_onChange_by_mode_def handleOptionClick_def handleRemoveOption_def
        Let_def notifications_simps commit_Cons commit_Nil initial_state_def only_banana_def)

text \<open>
  Claim C1 as stated fails for the removal of a chip in single-select mode: after Apple
  and then Banana have been chosen, Banana is the selection, and removing its chip calls
  \<open>onChange\<close> with the empty list, not with an Option.
\<close>

theorem C1_remove_in_single_mode_counterexample:
  "run toLowerCase_latin (fruit_props False) page initial_state
       [ClickTrigger, ClickOption 0, ClickTrigger, ClickOption 1]
     = Inr (only_banana, [One apple, One banana]) \<and>
   \<not> isMultiple (fruit_props False) \<and>
   notifications (handleRemoveOption (fruit_props False) banana only_banana) = [Many []] \<and>
   \<not> spec_onChange_by_mode (fruit_props False) only_banana
       (handleRemoveOption (fruit_props False) banana only_banana)"
  using run_only_banana
  by (simp add: fruit_simps spec_onChange_by_mode_def handleRemoveOption_def Let_def
        notifications_simps commit_Cons commit_Nil initial_state_def only_banana_def
        del: run.simps)

text \<open>
  Claim C2, as the code has it. In multi-select mode, for an options list with unique
  values, a state reached from the initial one and an option of the list, toggling the
  option twice gives a selection with the same elements and the same length. When the
  option was selected it ends up last, the others keeping their order; so the selection
  is the original one exactly when the option was not selected or was the last one
  selected.
\<close>

theorem C2_toggle_twice:
  assumes multi: "isMultiple p"
    and uniq: "distinct (map value_of (options p))"
    and reach: "run lc p lay initial_state evs = Inr (st, ns)"
    and mem: "option \<in> set (options p)"
  shows "set (selectedOptions (toggle p option (toggle p option st))) = set (selectedOptions st) \<and>
         length (selectedOptions (toggle p option (toggle p option st)))
           = length (selectedOptions st) \<and>
         (option \<in> set (selectedOptions st) \<longrightarrow>
            selectedOptions (toggle p option (toggle p option st))
              = filter (\<lambda>selected. selected \<noteq> option) (selectedOptions st) @ [option]) \<and>
         (selectedOptions (toggle p option (toggle p option st)) = selectedOptions st
            \<longleftrightarrow> option \<notin> set (selectedOptions st) \<or> last (selectedOptions st) = option)"
proof -
  let ?sel = "selectedOptions st"
  let ?tt = "selectedOptions (toggle p option (toggle p option st))"
  from run_reach_invariant [OF initial_reach_invariant reach]
  have sub: "set ?sel \<subseteq> set (options p)" and dv: "distinct (map value_of ?sel)"
    by (simp_all add: reach_invariant_def selection_invariant_def)
  from dv have d: "distinct ?sel" by (simp add: distinct_map)
  show ?thesis
  proof (cases "option \<in> set ?sel")
    case False
    with value_mem_iff [OF uniq sub mem]
    have nv: "value_of option \<notin> value_of ` set ?sel" by simp
    then have "\<forall>x\<in>set ?sel. value_of x \<noteq> value_of option"
      by (metis imageI)
    then have "filter (\<lambda>selected. value_of selected \<noteq> value_of option) ?sel = ?sel"
      by (simp add: filter_id_conv)
    with nv have "?tt = ?sel" by (simp add: toggle_multi [OF multi])
    with False show ?thesis by simp
  next
    case True
    with value_mem_iff [OF uniq sub mem]
    have v: "value_of option \<in> value_of ` set ?sel" by simp
    let ?rest = "filter (\<lambda>selected. selected \<noteq> option) ?sel"
    have one: "selectedOptions (toggle p option st) = ?rest"
      using v filter_value_eq [OF uniq sub mem] by (simp add: toggle_multi [OF multi])
    have "set ?rest \<subseteq> set (options p)" using sub by auto
    from value_mem_iff [OF uniq this mem]
    have "value_of option \<notin> value_of ` set ?rest" by simp
    with one have two: "?tt = ?rest @ [option]" by (simp add: toggle_multi [OF multi])
    have "set (?rest @ [option]) = set ?sel" using True by auto
    moreover have "length (?rest @ [option]) = length ?sel"
      using length_filter_neq [OF d True] by simp
    moreover have "?rest @ [option] = ?sel \<longleftrightarrow> last ?sel = option"
      by (rule filter_neq_append_last [OF d True])
    ultimately show ?thesis using True two by simp
  qed
qed

text \<open>
  The theorem after Apple and Banana have been clicked: Banana was selected last, and
  toggling it twice gives the selection back.
\<close>

theorem C2_toggle_twice_witness:
  "isMultiple (fruit_props True) \<and> distinct (map value_of (options (fruit_props True))) \<and>
   run toLowerCase_latin (fruit_props True) page initial_state
       [ClickTrigger, ClickOption 0, ClickOption 1]
     = Inr (both_selected, [Many [apple], Many [apple, banana]]) \<and>
   banana \<in> set (options (fruit_props True)) \<and>
   last (selectedOptions both_selected) = banana \<and>
   selectedOptions (toggle (fruit_props True) banana (toggle (fruit_props True) banana both_selected))
     = selectedOptions both_selected"
proof -
  have h1: "isMultiple (fruit_props True)" by (simp add: fruit_props_def)
  have h2: "distinct (map value_of (options (fruit_props True)))"
    by (simp add: fruit_props_def apple_def banana_def)
  have h4: "banana \<in> set (options (fruit_props True))" by (simp add: fruit_props_def)
  have h5: "last (selectedOptions both_selected) = banana"
    by (simp add: both_selected_def)
  show ?thesis
    using h1 h2 h4 h5 run_both_selected C2_toggle_twice [OF h1 h2 run_both_selected h4]
    by simp
qed

text \<open>
  Claim C2 as stated fails for an option that is selected and not the last one: with
  Apple and Banana selected in that order, toggling Apple twice gives Banana, Apple.
\<close>

theorem C2_order_counterexample:
  "isMultiple (fruit_props True) \<and> distinct (map value_of (options (fruit_props True))) \<and>
   run toLowerCase_latin (fruit_props True) page initial_state
       [ClickTrigger, ClickOption 0, ClickOption 1]
     = Inr (both_selected, [Many [apple], Many [apple, banana]]) \<and>
   selectedOptions both_selected = [apple, banana] \<and>
   selectedOptions (toggle (fruit_props True) apple (toggle (fruit_props True) apple both_selected))
     = [banana, apple] \<and>
   selectedOptions (toggle (fruit_props True) apple (toggle (fruit_props True) apple both_selected))
     \<noteq> selectedOptions both_selected"
  by code_simp

text \<open>
  Claim C3, as the code has it. A click on the chip at a position of the selection runs
  the chip's \<open>handleRemoveOption\<close>, which leaves the open flag as it is, and then the
  trigger's \<open>handleToggle\<close>, since the chip is inside the trigger and nothing stops
  the click on its way up: the option is removed and the open flag is flipped.
\<close>

theorem C3_chip_click:
  assumes "i < length (selectedOptions st)"
  shows "dispatch lc p lay st (ClickChip i)
           = Inr (handleRemoveOption p (selectedOptions st ! i) st @ handleToggle st) \<and>
         commit st (handleRemoveOption p (selectedOptions st ! i) st @ handleToggle st)
           = st\<lparr>selectedOptions :=
                   filter (\<lambda>selected. value_of selected \<noteq> value_of (selectedOptions st ! i))
                     (selectedOptions st),
                 isOpen := \<not> isOpen st\<rparr> \<and>
         isOpen (commit st (handleRemoveOption p (selectedOptions st ! i) st)) = isOpen st"
proof -
  from assms have ne: "selectedOptions st \<noteq> []" by auto
  with assms have "dispatch lc p lay st (ClickChip i)
           = Inr (handleRemoveOption p (selectedOptions st ! i) st @ handleToggle st)"
    by (simp add: dispatch_def trigger_content_def click_def trigger_onClick_def)
  moreover have "commit st (handleRemoveOption p (selectedOptions st ! i) st @ handleToggle st)
           = st\<lparr>selectedOptions :=
                   filter (\<lambda>selected. value_of selected \<noteq> value_of (selectedOptions st ! i))
                     (selectedOptions st),
                 isOpen := \<not> isOpen st\<rparr>"
    by (simp add: handleRemoveOption_def handleToggle_def Let_def commit_Cons commit_Nil)
  moreover have "isOpen (commit st (handleRemoveOption p (selectedOptions st ! i) st)) = isOpen st"
    by (simp add: handleRemoveOption_def Let_def commit_Cons commit_Nil)
  ultimately show ?thesis by blast
qed

text \<open>
  The theorem with Apple and Banana selected and the panel open: a click on the chip
  of Apple leaves Banana selected and the panel closed.
\<close>

theorem C3_chip_click_witness:
  "0 < length (selectedOptions both_selected) \<and>
   dispatch toLowerCase_latin (fruit_props True) page both_selected (ClickChip 0)
     = Inr (handleRemoveOption (fruit_props True) apple both_selected @ handleToggle both_selected) \<and>
   commit both_selected
       (handleRemoveOption (fruit_props True) apple both_selected @ handleToggle both_selected)
     = both_selected\<lparr>selectedOptions := [banana], isOpen := False\<rparr>"
proof -
  have h: "0 < length (selectedOptions both_selected)" by (simp add: both_selected_def)
  show ?thesis
    using h C3_chip_click [OF h, of toLowerCase_latin "fruit_props True" page]
    by (simp add: both_selected_def initial_state_def apple_def banana_def)
qed

text \<open>
  Claim C3 as stated fails: with the panel open, the click on the chip of Apple also
  sets the open flag to false.
\<close>

theorem C3_chip_click_closes_counterexample:
  "dispatch toLowerCase_latin (fruit_props True) page both_selected (ClickChip 0)
     = Inr [SetSelectedOptions [banana], OnChange (Many [banana]), SetIsOpen False] \<and>
   isOpen both_selected \<and>
   \<not> isOpen (commit both_selected
          [SetSelectedOptions [banana], OnChange (Many [banana]), SetIsOpen False])"
  by (simp add: dispatch_def trigger_content_def both_selected_def initial_state_def click_def
        trigger_onClick_def handleRemoveOption_def handleToggle_def apple_def banana_def
        Let_def commit_Cons commit_Nil)

text \<open>
  Claim C4 fails on the code: the overlay goes to the options whose \<open>value\<close> is the
  number Highlighted Index, not to the option at that position. With Apple (value 1) and
  Banana (value 2), after one ArrowDown the index is 0 and no option has the overlay;
  after a second one the index is 1 and the overlay is on Apple, at position 0.
\<close>

theorem C4_overlay_compares_value:
  "run toLowerCase_latin (fruit_props True) page initial_state [ClickTrigger, KeyDown ArrowDown]
     = Inr (initial_state\<lparr>isOpen := True, highlightedIndex := Some 0\<rparr>, []) \<and>
   map has_overlay (dropdownMenu_options toLowerCase_latin (fruit_props True)
       (initial_state\<lparr>isOpen := True, highlightedIndex := Some 0\<rparr>)) = [False, False] \<and>
   run toLowerCase_latin (fruit_props True) page initial_state
       [ClickTrigger, KeyDown ArrowDown, KeyDown ArrowDown]
     = Inr (initial_state\<lparr>isOpen := True, highlightedIndex := Some 1\<rparr>, []) \<and>
   map has_overlay (dropdownMenu_options toLowerCase_latin (fruit_props True)
       (initial_state\<lparr>isOpen := True, highlightedIndex := Some 1\<rparr>)) = [True, False]"
  by code_simp

text \<open>
  Claim C5, as the code has it. The key handler is on the search input, which is drawn
  inside the panel when \<open>searchable\<close>. While the panel is open and the search input
  is shown, for a non-empty options list, a press of ArrowDown or of ArrowUp runs
  \<open>handleKeyDown\<close>, makes no \<open>onChange\<close> call and changes only Highlighted Index,
  to the index the spec gives: from \<open>null\<close> to 0 or to the last index, wrapping at
  both ends. From \<open>null\<close> or from a position of the list the new index is a
  position of the list.
\<close>

theorem C5_arrow_keys_wrap:
  assumes "options p \<noteq> []" and "isOpen st" and "searchable p"
  shows "(\<exists>acts. dispatch lc p lay st (KeyDown ArrowDown) = Inr acts \<and>
            handleKeyDown p ArrowDown st = Inr acts \<and> notifications acts = [] \<and>
            commit st acts = st\<lparr>highlightedIndex :=
              Some (spec_ArrowDown (length (options p)) (highlightedIndex st))\<rparr> \<and>
            (highlightedIndex st = None \<or> highlight_in_range p st
               \<longrightarrow> highlight_in_range p (commit st acts)))
       \<and> (\<exists>acts. dispatch lc p lay st (KeyDown ArrowUp) = Inr acts \<and>
            handleKeyDown p ArrowUp st = Inr acts \<and> notifications acts = [] \<and>
            commit st acts = st\<lparr>highlightedIndex :=
              Some (spec_ArrowUp (length (options p)) (highlightedIndex st))\<rparr> \<and>
            (highlightedIndex st = None \<or> highlight_in_range p st
               \<longrightarrow> highlight_in_range p (commit st acts)))"
proof -
  let ?down = "[SetHighlightedIndex (\<lambda>prev.
                 case prev of
                   None \<Rightarrow> Some 0
                 | Some i \<Rightarrow> if i = int (length (options p)) - 1 then Some 0 else Some (i + 1))]"
  let ?up = "[SetHighlightedIndex (\<lambda>prev.
                 case prev of
                   None \<Rightarrow> Some (int (length (options p)) - 1)
                 | Some i \<Rightarrow> if i = 0 then Some (int (length (options p)) - 1) else Some (i - 1))]"
  from assms(1) have n: "0 < length (options p)" by simp
  have kd: "handleKeyDown p ArrowDown st = Inr ?down"
    by (simp add: handleKeyDown_def)
  have ku: "handleKeyDown p ArrowUp st = Inr ?up"
    by (simp add: handleKeyDown_def)
  from assms(2,3) have dd: "dispatch lc p lay st (KeyDown ArrowDown) = Inr ?down"
    unfolding kd [symmetric] by (simp add: dispatch_def)
  from assms(2,3) have du: "dispatch lc p lay st (KeyDown ArrowUp) = Inr ?up"
    unfolding ku [symmetric] by (simp add: dispatch_def)
  have nd: "notifications ?down = []" and nu: "notifications ?up = []"
    by (simp_all add: notifications_simps)
  have down: "commit st ?down
      = st\<lparr>highlightedIndex := Some (spec_ArrowDown (length (options p)) (highlightedIndex st))\<rparr>"
    by (cases "highlightedIndex st") (simp_all add: commit_Cons commit_Nil spec_ArrowDown_def)
  have up: "commit st ?up
      = st\<lparr>highlightedIndex := Some (spec_ArrowUp (length (options p)) (highlightedIndex st))\<rparr>"
    by (cases "highlightedIndex st") (simp_all add: commit_Cons commit_Nil spec_ArrowUp_def)
  have rd: "highlightedIndex st = None \<or> highlight_in_range p st
              \<longrightarrow> highlight_in_range p (commit st ?down)"
    unfolding down using n
    by (cases "highlightedIndex st") (auto simp: highlight_in_range_def spec_ArrowDown_def)
  have ru: "highlightedIndex st = None \<or> highlight_in_range p st
              \<longrightarrow> highlight_in_range p (commit st ?up)"
    unfolding up using n
    by (cases "highlightedIndex st") (auto simp: highlight_in_range_def spec_ArrowUp_def)
  from dd kd nd down rd
  have D: "\<exists>acts. dispatch lc p lay st (KeyDown ArrowDown) = Inr acts \<and>
            handleKeyDown p ArrowDown st = Inr acts \<and> notifications acts = [] \<and>
            commit st acts = st\<lparr>highlightedIndex :=
              Some (spec_ArrowDown (length (options p)) (highlightedIndex st))\<rparr> \<and>
            (highlightedIndex st = None \<or> highlight_in_range p st
               \<longrightarrow> highlight_in_range p (commit st acts))"
    by blast
  from du ku nu up ru
  have U: "\<exists>acts. dispatch lc p lay st (KeyDown ArrowUp) = Inr acts \<and>
            handleKeyDown p ArrowUp st = Inr acts \<and> notifications acts = [] \<and>
            commit st acts = st\<lparr>highlightedIndex :=
              Some (spec_ArrowUp (length (options p)) (highlightedIndex st))\<rparr> \<and>
            (highlightedIndex st = None \<or> highlight_in_range p st
               \<longrightarrow> highlight_in_range p (commit st acts))"
    by blast
  show ?thesis
    by (rule conjI [OF D U])
qed

text \<open>
  The theorem at the two options of the spec, with the panel open: ArrowDown from the
  last index 1 gives 0, and ArrowUp from \<open>null\<close> gives the last index 1.
\<close>

theorem C5_arrow_keys_wrap_witness:
  "options (fruit_props True) \<noteq> [] \<and> isOpen (open_at (Some 1)) \<and> isOpen (open_at None) \<and>
   searchable (fruit_props True) \<and>
   (\<exists>acts. dispatch toLowerCase_latin (fruit_props True) page (open_at (Some 1)) (KeyDown ArrowDown)
              = Inr acts \<and>
            highlightedIndex (commit (open_at (Some 1)) acts) = Some 0) \<and>
   (\<exists>acts. dispatch toLowerCase_latin (fruit_props True) page (open_at None) (KeyDown ArrowUp)
              = Inr acts \<and>
            highlightedIndex (commit (open_at None) acts) = Some 1)"
proof -
  have h1: "options (fruit_props True) \<noteq> []" by (simp add: fruit_props_def)
  have h2: "isOpen (open_at (Some 1))" and h2': "isOpen (open_at None)"
    by (simp_all add: open_at_def)
  have h3: "searchable (fruit_props True)" by (simp add: fruit_props_def)
  have v1: "highlightedIndex (open_at (Some 1)) = Some 1"
    and v2: "highlightedIndex (open_at None) = None"
    by (simp_all add: open_at_def)
  have l: "length (options (fruit_props True)) = 2" by (simp add: fruit_props_def)
  from C5_arrow_keys_wrap [OF h1 h2 h3, of toLowerCase_latin page]
  obtain acts where "dispatch toLowerCase_latin (fruit_props True) page (open_at (Some 1))
        (KeyDown ArrowDown) = Inr acts"
    and "commit (open_at (Some 1)) acts = (open_at (Some 1))\<lparr>highlightedIndex :=
          Some (spec_ArrowDown (length (options (fruit_props True)))
                  (highlightedIndex (open_at (Some 1))))\<rparr>"
    by blast
  then have D: "\<exists>acts. dispatch toLowerCase_latin (fruit_props True) page (open_at (Some 1))
        (KeyDown ArrowDown) = Inr acts \<and>
      highlightedIndex (commit (open_at (Some 1)) acts) = Some 0"
    by (simp add: v1 l spec_ArrowDown_def)
  from C5_arrow_keys_wrap [OF h1 h2' h3, of toLowerCase_latin page]
  obtain acts where "dispatch toLowerCase_latin (fruit_props True) page (open_at None)
        (KeyDown ArrowUp) = Inr acts"
    and "commit (open_at None) acts = (open_at None)\<lparr>highlightedIndex :=
          Some (spec_ArrowUp (length (options (fruit_props True)))
                  (highlightedIndex (open_at None)))\<rparr>"
    by blast
  then have U: "\<exists>acts. dispatch toLowerCase_latin (fruit_props True) page (open_at None)
        (KeyDown ArrowUp) = Inr acts \<and>
      highlightedIndex (commit (open_at None) acts) = Some 1"
    by (simp add: v2 l spec_ArrowUp_def)
  from h1 h2 h2' h3 D U show ?thesis by blast
qed

text \<open>
  Claim C5 as stated fails when the panel is open without its search input: with
  \<open>searchable\<close> false nothing carries the key handler, and ArrowDown leaves
  Highlighted Index \<open>null\<close> where the claim gives 0.
\<close>

theorem C5_no_search_input_counterexample:
  "options fruit_props_unsearchable \<noteq> [] \<and>
   run toLowerCase_latin fruit_props_unsearchable page initial_state [ClickTrigger]
     = Inr (open_at None, []) \<and>
   isOpen (open_at None) \<and> highlightedIndex (open_at None) = None \<and>
   run toLowerCase_latin fruit_props_unsearchable page initial_state
       [ClickTrigger, KeyDown ArrowDown]
     = Inr (open_at None, []) \<and>
   spec_ArrowDown (length (options fruit_props_unsearchable)) None = 0 \<and>
   highlightedIndex (open_at None) \<noteq> Some 0"
  by code_simp

text \<open>
  Claim C6, as the code has it. When Highlighted Index is a position of the options
  list, the panel is open, the search input is shown and the options are drawn by the
  built-in renderer, a press of Enter and a click on the option at that position are the
  same event for the component: both make the calls of \<open>handleOptionClick\<close> on that
  option, which is the \<open>onClick\<close> of the \<open>div\<close> drawn for it, and so the same
  setter calls and the same \<open>onChange\<close> call.
\<close>

theorem C6_enter_is_click:
  assumes "highlightedIndex st = Some i" "0 \<le> i" "i < int (length (options p))"
    and "isOpen st" and "searchable p" and "renderOption p = None"
  shows "dispatch lc p lay st (KeyDown Enter)
           = Inr (handleOptionClick p (options p ! nat i) st) \<and>
         dispatch lc p lay st (ClickOption (nat i))
           = Inr (handleOptionClick p (options p ! nat i) st) \<and>
         handleKeyDown p Enter st = Inr (handleOptionClick p (options p ! nat i) st) \<and>
         (\<exists>d. dropdownMenu_options lc p st ! nat i = Builtin d \<and>
              click p st [div_onClick d] = handleOptionClick p (options p ! nat i) st)"
proof -
  from assms(2,3) have n: "nat i < length (options p)" by simp
  from assms(1,2,3)
  have e: "handleKeyDown p Enter st = Inr (handleOptionClick p (options p ! nat i) st)"
    by (simp add: handleKeyDown_def js_index_def)
  from assms(6) have r: "dropdownMenu_options lc p st ! nat i =
        Builtin (renderDefaultOption lc st (options p ! nat i)
          (list_ex (\<lambda>selected. value_of selected = value_of (options p ! nat i)) (selectedOptions st)))"
    using dropdownMenu_options_nth [OF n, of lc st] by simp
  have c: "click p st [div_onClick (renderDefaultOption lc st option sel)]
             = handleOptionClick p option st" for option sel
    by (simp add: click_def renderDefaultOption_def Let_def)
  from assms(4,5) e have k: "dispatch lc p lay st (KeyDown Enter)
           = Inr (handleOptionClick p (options p ! nat i) st)"
    by (simp add: dispatch_def)
  from assms(4) n r c have m: "dispatch lc p lay st (ClickOption (nat i))
           = Inr (handleOptionClick p (options p ! nat i) st)"
    by (simp add: dispatch_def length_dropdownMenu_options)
  from r c have d: "\<exists>d. dropdownMenu_options lc p st ! nat i = Builtin d \<and>
              click p st [div_onClick d] = handleOptionClick p (options p ! nat i) st"
    by simp
  from k m e d show ?thesis by blast
qed

text \<open>
  The theorem with Apple and Banana selected and Banana highlighted: Enter and a click
  on Banana both deselect Banana and notify with Apple alone.
\<close>

theorem C6_enter_is_click_witness:
  "highlightedIndex (both_selected\<lparr>highlightedIndex := Some 1\<rparr>) = Some 1 \<and>
   (0::int) \<le> 1 \<and> 1 < int (length (options (fruit_props True))) \<and>
   isOpen (both_selected\<lparr>highlightedIndex := Some 1\<rparr>) \<and>
   searchable (fruit_props True) \<and> renderOption (fruit_props True) = None \<and>
   dispatch toLowerCase_latin (fruit_props True) page (both_selected\<lparr>highlightedIndex := Some 1\<rparr>)
       (KeyDown Enter)
     = Inr [SetSelectedOptions [apple], OnChange (Many [apple])] \<and>
   dispatch toLowerCase_latin (fruit_props True) page (both_selected\<lparr>highlightedIndex := Some 1\<rparr>)
       (ClickOption 1)
     = Inr [SetSelectedOptions [apple], OnChange (Many [apple])]"
proof -
  have h1: "highlightedIndex (both_selected\<lparr>highlightedIndex := Some 1\<rparr>) = Some 1" by simp
  have h2: "(0::int) \<le> 1" by simp
  have h3: "1 < int (length (options (fruit_props True)))" by (simp add: fruit_props_def)
  have h4: "isOpen (both_selected\<lparr>highlightedIndex := Some 1\<rparr>)"
    by (simp add: both_selected_def)
  have h5: "searchable (fruit_props True)" by (simp add: fruit_props_def)
  have h6: "renderOption (fruit_props True) = None" by (simp add: fruit_props_def)
  have o: "options (fruit_props True) ! Suc 0 = banana" by (simp add: fruit_props_def)
  have t: "handleOptionClick (fruit_props True) banana (both_selected\<lparr>highlightedIndex := Some 1\<rparr>)
             = [SetSelectedOptions [apple], OnChange (Many [apple])]"
    by (simp add: handleOptionClick_def Let_def fruit_props_def both_selected_def
          initial_state_def apple_def banana_def)
  from C6_enter_is_click [OF h1 h2 h3 h4 h5 h6, of toLowerCase_latin page]
  have "dispatch toLowerCase_latin (fruit_props True) page
            (both_selected\<lparr>highlightedIndex := Some 1\<rparr>) (KeyDown Enter)
          = Inr [SetSelectedOptions [apple], OnChange (Many [apple])]"
    and "dispatch toLowerCase_latin (fruit_props True) page
            (both_selected\<lparr>highlightedIndex := Some 1\<rparr>) (ClickOption 1)
          = Inr [SetSelectedOptions [apple], OnChange (Many [apple])]"
    by (simp_all add: o t)
  with h1 h2 h3 h4 h5 h6 show ?thesis by blast
qed

text \<open>
  Claim C6 as stated fails in two ways. With a renderer of the caller the option carries
  no \<open>onClick\<close> of the component: at the highlighted position 0, Enter selects Apple
  and notifies, and a click on the option makes no call. Without the search input it is
  the other way round: the click selects Apple and Enter makes no call.
\<close>

theorem C6_enter_is_not_click_counterexample:
  "run toLowerCase_latin fruit_props_custom page initial_state [ClickTrigger, KeyDown ArrowDown]
     = Inr (open_at (Some 0), []) \<and>
   js_index (options fruit_props_custom) 0 = Some apple \<and>
   run toLowerCase_latin fruit_props_custom page (open_at (Some 0)) [KeyDown Enter]
     = Inr ((open_at (Some 0))\<lparr>selectedOptions := [apple]\<rparr>, [Many [apple]]) \<and>
   run toLowerCase_latin fruit_props_custom page (open_at (Some 0)) [ClickOption 0]
     = Inr (open_at (Some 0), []) \<and>
   js_index (options fruit_props_unsearchable) 0 = Some apple \<and>
   run toLowerCase_latin fruit_props_unsearchable page (open_at (Some 0)) [KeyDown Enter]
     = Inr (open_at (Some 0), []) \<and>
   run toLowerCase_latin fruit_props_unsearchable page (open_at (Some 0)) [ClickOption 0]
     = Inr ((open_at (Some 0))\<lparr>selectedOptions := [apple]\<rparr>, [Many [apple]])"
  by code_simp

text \<open>
  Claim C7. While the panel is open both refs are set, and a mouse button pressed on a
  node outside the subtree of the wrapper (the trigger's) and outside the subtree of
  the panel sets the open flag to false and changes nothing else; pressed on a node
  inside either subtree it changes nothing. \<open>onChange\<close> is not called.
\<close>

theorem C7_outside_mousedown:
  assumes "isOpen st"
  shows "\<exists>acts. dispatch lc p lay st (MouseDown target) = Inr acts \<and> notifications acts = [] \<and>
           commit st acts =
             (if target \<notin> set (wrapper_subtree lay) \<and> target \<notin> set (menu_subtree lay)
              then st\<lparr>isOpen := False\<rparr> else st)"
  using assms
  by (simp add: dispatch_def handleClickOutside_def dropdownRef_current_def
        dropdownMenuRef_current_def contains_def commit_Cons commit_Nil notifications_simps)

text \<open>
  The theorem on the page of the examples: pressing on node 9, outside, closes the
  panel; pressing on node 4, in the panel, or on node 1, in the trigger, does nothing.
\<close>

theorem C7_outside_mousedown_witness:
  "isOpen both_selected \<and>
   dispatch toLowerCase_latin (fruit_props True) page both_selected (MouseDown 9)
     = Inr [SetIsOpen False] \<and>
   dispatch toLowerCase_latin (fruit_props True) page both_selected (MouseDown 4) = Inr [] \<and>
   dispatch toLowerCase_latin (fruit_props True) page both_selected (MouseDown 1) = Inr []"
proof -
  have h: "isOpen both_selected" by (simp add: both_selected_def)
  show ?thesis
    using h C7_outside_mousedown [OF h, of toLowerCase_latin "fruit_props True" page 9]
    by (simp add: dispatch_def handleClickOutside_def dropdownRef_current_def
        dropdownMenuRef_current_def contains_def page_def)
qed

text \<open>
  Claim C8 fails on the code for a label whose lower case is longer than the label. The
  label of Istanbul with a capital dotted I (U+0130) holds the search term \<open>st\<close> at
  code unit 1; the lowercased label has it at code unit 2, and that index is applied to
  the label: the slices are the first two code units, then \<open>ta\<close>, then \<open>nbul\<close>,
  so what is marked is not the occurrence of the search term. With the label U+0130
  \<open>a\<close> and the search term \<open>a\<close> the marked slice is empty.
\<close>

theorem C8_split_misses_occurrence:
  "take 2 (drop 1 (label istanbul)) = utf16 ''st'' \<and>
   toLowerCase_latin (label istanbul) = 0x69 # 0x307 # utf16 ''stanbul'' \<and>
   indexOf (toLowerCase_latin (label istanbul)) (toLowerCase_latin (utf16 ''st'')) = 2 \<and>
   div_children (renderDefaultOption toLowerCase_latin (searching (utf16 ''st'')) istanbul False)
     = Marked [0x130, 0x73] (utf16 ''ta'') (utf16 ''nbul'') \<and>
   div_children (renderDefaultOption toLowerCase_latin (searching (utf16 ''a''))
       \<lparr>value_of = NumV 35, label = [0x130, 0x61]\<rparr> False)
     = Marked [0x130, 0x61] [] []"
  by code_simp

text \<open>
  Claim C9. The initial selection satisfies the invariant; \<open>toggle\<close> and \<open>remove\<close>,
  with any option as argument, preserve it; and so does every run of events from the
  initial state. Nothing is asked of the options list.
\<close>

theorem C9_selection_invariant:
  "selection_invariant p initial_state \<and>
   (selection_invariant p st \<longrightarrow>
      selection_invariant p (toggle p option st) \<and> selection_invariant p (remove p option st)) \<and>
   (run lc p lay initial_state evs = Inr (st', ns) \<longrightarrow> selection_invariant p st')"
proof -
  have "selection_invariant p initial_state"
    by (simp add: selection_invariant_def initial_state_def)
  moreover have "selection_invariant p st' " if "run lc p lay initial_state evs = Inr (st', ns)"
    using run_reach_invariant [OF initial_reach_invariant that]
    by (simp add: reach_invariant_def)
  ultimately show ?thesis
    using toggle_selection_invariant [of p st option] remove_selection_invariant [of p st option]
    by blast
qed

text \<open>
  The theorem in single-select mode, after Apple and then Banana have been chosen: the
  state reached, and the states after a toggle and after a removal of Banana, satisfy the
  invariant.
\<close>

theorem C9_selection_invariant_witness:
  "run toLowerCase_latin (fruit_props False) page initial_state
       [ClickTrigger, ClickOption 0, ClickTrigger, ClickOption 1]
     = Inr (only_banana, [One apple, One banana]) \<and>
   selection_invariant (fruit_props False) only_banana \<and>
   selection_invariant (fruit_props False) (toggle (fruit_props False) banana only_banana) \<and>
   selection_invariant (fruit_props False) (remove (fruit_props False) banana only_banana)"
  using run_only_banana
    C9_selection_invariant [of "fruit_props False" only_banana
      banana toLowerCase_latin page "[ClickTrigger, ClickOption 0, ClickTrigger, ClickOption 1]"
      only_banana "[One apple, One banana]"]
  by (simp del: run.simps)

text \<open>
  Claim C10. With an empty options list and the search input shown, opening the panel
  and pressing ArrowDown sets Highlighted Index to 0, and pressing ArrowUp instead sets
  it to -1; neither is a position of the list, so \<open>options[highlightedIndex]\<close> is
  \<open>undefined\<close>, and Enter ends in the TypeError.
\<close>

theorem C10_enter_out_of_bounds:
  assumes "options p = []" "searchable p"
  shows "run lc p lay initial_state [ClickTrigger, KeyDown ArrowDown]
           = Inr (initial_state\<lparr>isOpen := True, highlightedIndex := Some 0\<rparr>, []) \<and>
         js_index (options p) 0 = None \<and>
         run lc p lay initial_state [ClickTrigger, KeyDown ArrowDown, KeyDown Enter]
           = Inl TypeError \<and>
         run lc p lay initial_state [ClickTrigger, KeyDown ArrowUp]
           = Inr (initial_state\<lparr>isOpen := True, highlightedIndex := Some (- 1)\<rparr>, []) \<and>
         js_index (options p) (- 1) = None \<and>
         run lc p lay initial_state [ClickTrigger, KeyDown ArrowUp, KeyDown Enter]
           = Inl TypeError"
  using assms
  by (simp add: dispatch_def click_def trigger_onClick_def handleToggle_def handleKeyDown_def
        js_index_def initial_state_def commit_Cons commit_Nil notifications_simps)

text \<open>The theorem at the component with no options.\<close>

theorem C10_enter_out_of_bounds_witness:
  "options no_options = [] \<and> searchable no_options \<and>
   run toLowerCase_latin no_options page initial_state
       [ClickTrigger, KeyDown ArrowDown, KeyDown Enter] = Inl TypeError \<and>
   run toLowerCase_latin no_options page initial_state
       [ClickTrigger, KeyDown ArrowUp, KeyDown Enter] = Inl TypeError"
proof -
  have h1: "options no_options = []" by (simp add: no_options_def)
  have h2: "searchable no_options" by (simp add: no_options_def)
  show ?thesis
    using h1 h2 C10_enter_out_of_bounds [OF h1 h2, of toLowerCase_latin page] by simp
qed

end
